theory Spec2Isabelle
  imports Complex_Main
begin

section \<open>Data model (src/types.ts and the state of src/Bookstore.tsx)\<close>

text \<open>
  The TypeScript interfaces are records. \<open>Book\<close> is split into the part supplied by the
  recommendation stream (\<open>bookData\<close>: the six fields that the callback of
  \<open>handleSearch\<close> spreads into the new book) and the part synthesised by the store;
  \<open>CartItem = Book & { quantity: number }\<close> is a record extension of \<open>book\<close>.
  JavaScript numbers that only ever hold integers here (quantities, page counts, epoch
  milliseconds) are \<open>int\<close>; ratings and the draws of \<open>Math.random()\<close> are \<open>real\<close>
  (the value of the double).
  The field \<open>id\<close> is named \<open>book_id\<close> / \<open>notif_id\<close>, the \<open>rating\<close> of a review
  \<open>review_rating\<close> and the \<open>timestamp\<close> of a sale \<open>sale_timestamp\<close>, to keep the
  selectors apart.
\<close>

record review =
  username :: string
  comment :: string
  review_rating :: real

text \<open>
  Modelled from the spec: the type of the argument of the callback of \<open>handleSearch\<close>
  is declared in \<open>services/geminiService\<close>, outside \<open>src/Bookstore.tsx\<close> and
  \<open>src/types.ts\<close>. Section 6 of the spec lists its fields: title, author, summary,
  category, publicationDate and pages; \<open>types.ts\<close> gives their types.
\<close>

record bookData =
  title :: string
  author :: string
  summary :: string
  category :: string
  publicationDate :: string
  pages :: int

record book = bookData +
  book_id :: string
  price :: string
  coverImageUrl :: string
  rating :: real
  reviews :: "review list"
  isBestseller :: "bool option"

record cartItem = book +
  quantity :: int

record notification =
  notif_id :: string
  message :: string
  timestamp :: int
  read :: bool

record sale =
  bookId :: string
  sale_timestamp :: int

datatype view = Store | Cart | Checkout | Login | Admin

text \<open>
  The three sources of values from outside the component: \<open>uuidv4()\<close>, \<open>Math.random()\<close>
  and \<open>new Date()\<close>. Each is a sequence of results; the state counts the calls made so
  far, and the n-th call returns the n-th element. The arithmetic of doubles is part of
  the environment too: \<open>double_times\<close> and \<open>double_plus\<close> are the product and the
  sum of two doubles as JavaScript rounds them, and \<open>toFixed1\<close> is
  \<open>+x.toFixed(1)\<close>. They are not computed over the exact reals, which would give
  other digits than the code for some draws.
\<close>

record env =
  uuidv4 :: "nat \<Rightarrow> string"
  math_random :: "nat \<Rightarrow> real"
  new_Date :: "nat \<Rightarrow> int"
  double_times :: "real \<Rightarrow> real \<Rightarrow> real"
  double_plus :: "real \<Rightarrow> real \<Rightarrow> real"
  toFixed1 :: "real \<Rightarrow> real"

text \<open>
  The \<open>useState\<close> cells of the component, the array \<open>newBooks\<close> local to each call of
  \<open>handleSearch\<close> (indexed by the number of the call: the callback of a call closes over
  its own array), and the call counters of the three sources.
\<close>

record store =
  displayedBooks :: "book list"
  inventory :: "book list"
  isLoading :: bool
  selectedBook :: "book option"
  currentView :: view
  isAdmin :: bool
  salesData :: "sale list"
  cart :: "cartItem list"
  notifications :: "notification list"
  newBooks :: "nat \<Rightarrow> book list"
  uuid_calls :: nat
  random_calls :: nat
  date_calls :: nat

section \<open>Template literals\<close>

definition dq :: char where
  "dq = CHR 0x22"

fun show_nat :: "nat \<Rightarrow> string" where
  "show_nat n =
     (if n < 10 then [''0123456789'' ! n]
      else show_nat (n div 10) @ [''0123456789'' ! (n mod 10)])"

declare show_nat.simps [simp del]

definition show_int :: "int \<Rightarrow> string" where
  "show_int i = (if i < 0 then CHR ''-'' # show_nat (nat (- i)) else show_nat (nat i))"

section \<open>Notifications\<close>

definition addNotification :: "env \<Rightarrow> string \<Rightarrow> store \<Rightarrow> store" where
  "addNotification w msg s =
     (let newNotification =
            \<lparr>notif_id = uuidv4 w (uuid_calls s), message = msg,
             timestamp = new_Date w (date_calls s), read = False\<rparr>
      in s\<lparr>notifications := newNotification # take 19 (notifications s),
           uuid_calls := Suc (uuid_calls s),
           date_calls := Suc (date_calls s)\<rparr>)"

text \<open>A sequence of pushes, oldest first.\<close>

definition pushAll :: "env \<Rightarrow> string list \<Rightarrow> store \<Rightarrow> store" where
  "pushAll w ms s = foldl (\<lambda>s m. addNotification w m s) s ms"

definition handleDismissNotification :: "string \<Rightarrow> store \<Rightarrow> store" where
  "handleDismissNotification i s =
     s\<lparr>notifications := filter (\<lambda>n. notif_id n \<noteq> i) (notifications s)\<rparr>"

definition handleMarkAsRead :: "string \<Rightarrow> store \<Rightarrow> store" where
  "handleMarkAsRead i s =
     s\<lparr>notifications := map (\<lambda>n. if notif_id n = i then n\<lparr>read := True\<rparr> else n) (notifications s)\<rparr>"

definition handleMarkAllAsRead :: "store \<Rightarrow> store" where
  "handleMarkAllAsRead s = s\<lparr>notifications := map (\<lambda>n. n\<lparr>read := True\<rparr>) (notifications s)\<rparr>"

definition handleClearAllNotifications :: "store \<Rightarrow> store" where
  "handleClearAllNotifications s = s\<lparr>notifications := []\<rparr>"

section \<open>Cart\<close>

definition toCartItem :: "book \<Rightarrow> int \<Rightarrow> cartItem" where
  "toCartItem b q =
     \<lparr>title = title b, author = author b, summary = summary b, category = category b,
      publicationDate = publicationDate b, pages = pages b, book_id = book_id b,
      price = price b, coverImageUrl = coverImageUrl b, rating = rating b,
      reviews = reviews b, isBestseller = isBestseller b, quantity = q\<rparr>"

definition handleAddToCart :: "env \<Rightarrow> book \<Rightarrow> store \<Rightarrow> store" where
  "handleAddToCart w bookToAdd s =
     (case find (\<lambda>item. book_id item = book_id bookToAdd) (cart s) of
        Some existingItem \<Rightarrow>
          s\<lparr>cart := map (\<lambda>item. if book_id item = book_id bookToAdd
                                then item\<lparr>quantity := quantity item + 1\<rparr> else item) (cart s)\<rparr>
      | None \<Rightarrow>
          (addNotification w (dq # title bookToAdd @ dq # '' added to cart.'') s)
            \<lparr>cart := cart s @ [toCartItem bookToAdd 1]\<rparr>)"

definition handleRemoveFromCart :: "'a book_scheme \<Rightarrow> store \<Rightarrow> store" where
  "handleRemoveFromCart bookToRemove s =
     s\<lparr>cart := filter (\<lambda>b. book_id b \<noteq> book_id bookToRemove) (cart s)\<rparr>"

definition handleIncreaseQuantity :: "string \<Rightarrow> store \<Rightarrow> store" where
  "handleIncreaseQuantity bookId' s =
     s\<lparr>cart := map (\<lambda>item. if book_id item = bookId'
                           then item\<lparr>quantity := quantity item + 1\<rparr> else item) (cart s)\<rparr>"

definition handleDecreaseQuantity :: "string \<Rightarrow> store \<Rightarrow> store" where
  "handleDecreaseQuantity bookId' s =
     (case find (\<lambda>item. book_id item = bookId') (cart s) of
        Some itemToDecrease \<Rightarrow>
          if quantity itemToDecrease > 1
          then s\<lparr>cart := map (\<lambda>item. if book_id item = bookId'
                                     then item\<lparr>quantity := quantity item - 1\<rparr> else item) (cart s)\<rparr>
          else s\<lparr>cart := filter (\<lambda>item. book_id item \<noteq> bookId') (cart s)\<rparr>
      | None \<Rightarrow> s\<lparr>cart := filter (\<lambda>item. book_id item \<noteq> bookId') (cart s)\<rparr>)"

definition totalCartItems :: "store \<Rightarrow> int" where
  "totalCartItems s = foldl (\<lambda>total item. total + quantity item) 0 (cart s)"

text \<open>The four cart operations as data, and a sequence of them applied from left to right.\<close>

datatype cartOp = Add book | Increase string | Decrease string | Remove book

fun applyOp :: "env \<Rightarrow> store \<Rightarrow> cartOp \<Rightarrow> store" where
  "applyOp w s (Add b) = handleAddToCart w b s"
| "applyOp w s (Increase i) = handleIncreaseQuantity i s"
| "applyOp w s (Decrease i) = handleDecreaseQuantity i s"
| "applyOp w s (Remove b) = handleRemoveFromCart b s"

definition runOps :: "env \<Rightarrow> cartOp list \<Rightarrow> store \<Rightarrow> store" where
  "runOps w ops s = foldl (applyOp w) s ops"

text \<open>
  The shape of a cart that the operations maintain: one line per book id, every quantity
  at least 1.
\<close>

definition cartOK :: "cartItem list \<Rightarrow> bool" where
  "cartOK c \<longleftrightarrow> distinct (map book_id c) \<and> list_all (\<lambda>item. 1 \<le> quantity item) c"

section \<open>Checkout\<close>

text \<open>
  The inner \<open>for\<close> loop of \<open>handleConfirmCartPurchase\<close>: \<open>i\<close> runs from 0 while
  \<open>i < item.quantity\<close>, so it makes \<open>nat (quantity item)\<close> rounds (none for a quantity
  below 1), and each round reads the clock once.
\<close>

fun pushSales :: "env \<Rightarrow> string \<Rightarrow> nat \<Rightarrow> sale list \<times> store \<Rightarrow> sale list \<times> store" where
  "pushSales w b 0 (newSales, s) = (newSales, s)"
| "pushSales w b (Suc n) (newSales, s) =
     pushSales w b n
       (newSales @ [\<lparr>bookId = b, sale_timestamp = new_Date w (date_calls s)\<rparr>],
        s\<lparr>date_calls := Suc (date_calls s)\<rparr>)"

text \<open>The body of \<open>cart.forEach\<close>, and the loop over the lines of the cart.\<close>

definition saleMessage :: "cartItem \<Rightarrow> string" where
  "saleMessage item =
     ''New Sale: '' @ dq # title item @ dq # '' (x'' @ show_int (quantity item) @ '')''"

definition confirmItem :: "env \<Rightarrow> cartItem \<Rightarrow> sale list \<times> store \<Rightarrow> sale list \<times> store" where
  "confirmItem w item acc =
     (case pushSales w (book_id item) (nat (quantity item)) acc of
        (newSales, s) \<Rightarrow> (newSales, addNotification w (saleMessage item) s))"

fun confirmLoop :: "env \<Rightarrow> cartItem list \<Rightarrow> sale list \<times> store \<Rightarrow> sale list \<times> store" where
  "confirmLoop w [] acc = acc"
| "confirmLoop w (item # items) acc = confirmLoop w items (confirmItem w item acc)"

definition handleConfirmCartPurchase :: "env \<Rightarrow> store \<Rightarrow> store" where
  "handleConfirmCartPurchase w s =
     (case confirmLoop w (cart s) ([], s) of
        (newSales, s') \<Rightarrow>
          s'\<lparr>salesData := salesData s' @ newSales, cart := [], currentView := Store\<rparr>)"

definition handleProceedToCheckout :: "store \<Rightarrow> store" where
  "handleProceedToCheckout s = s\<lparr>currentView := Checkout\<rparr>"

definition handleBackToStore :: "store \<Rightarrow> store" where
  "handleBackToStore s = s\<lparr>currentView := Store\<rparr>"

section \<open>Search\<close>

text \<open>The prefix of the price, as the bytes of the source file.\<close>

definition currency :: string where
  "currency = [CHR 0xC3, CHR 0xA2, CHR 0xE2, CHR 0x80, CHR 0x9A, CHR 0xC2, CHR 0xA6]"

text \<open>
  The object literal of the callback: \<open>nu\<close> and \<open>nr\<close> are the numbers of calls of
  \<open>uuidv4()\<close> and \<open>Math.random()\<close> made before it. The constants 26, 1.5, 3.5, 15
  and 1000 are doubles, and so are \<open>40 - 15 + 1\<close> and \<open>5 - 3.5\<close>; after
  \<open>Math.floor\<close> the price is computed on integers far below \<open>2^53\<close>, where doubles
  are exact; no double lies between one fifth and the double \<open>0.2\<close>, so the
  comparison with \<open>0.2\<close> is the comparison with one fifth.
\<close>

definition newBook :: "env \<Rightarrow> nat \<Rightarrow> nat \<Rightarrow> bookData \<Rightarrow> book" where
  "newBook w nu nr bd =
     (let newId = uuidv4 w nu in
      \<lparr>title = title bd, author = author bd, summary = summary bd, category = category bd,
       publicationDate = publicationDate bd, pages = pages bd,
       book_id = newId,
       price = currency
                 @ show_int ((\<lfloor>double_times w (math_random w nr) (40 - 15 + 1)\<rfloor> + 15) * 1000),
       coverImageUrl = ''https://picsum.photos/seed/'' @ newId @ ''/600/800'',
       rating = toFixed1 w (double_plus w (double_times w (math_random w (nr + 1)) (5 - 3.5)) 3.5),
       reviews = [],
       isBestseller = Some (math_random w (nr + 2) < 0.2)\<rparr>)"

text \<open>
  \<open>handleSearch\<close> is asynchronous: it runs up to the \<open>await\<close>, then the stream calls
  its callback once per item, then the promise settles. So call number \<open>k\<close> of
  \<open>handleSearch\<close> is four transitions: its start (lines 48-50), the callback (lines
  54-67), the continuation after a fulfilled promise (lines 70 and 75) and the one after
  a rejected promise (lines 72, 73 and 75; \<open>console.error\<close> changes no state of the
  component). \<open>prebuiltBooks\<close> is imported from \<open>data/prebuiltBooks\<close>, outside
  \<open>src/Bookstore.tsx\<close> and \<open>src/types.ts\<close>, so it is a parameter.
\<close>

definition searchStart :: "nat \<Rightarrow> store \<Rightarrow> store" where
  "searchStart k s = s\<lparr>isLoading := True, displayedBooks := [], newBooks := (newBooks s)(k := [])\<rparr>"

definition onItem :: "env \<Rightarrow> nat \<Rightarrow> bookData \<Rightarrow> store \<Rightarrow> store" where
  "onItem w k bd s =
     (let nb = newBooks s k @ [newBook w (uuid_calls s) (random_calls s) bd] in
      s\<lparr>newBooks := (newBooks s)(k := nb),
        displayedBooks := nb,
        uuid_calls := Suc (uuid_calls s),
        random_calls := random_calls s + 3\<rparr>)"

definition mergeInventory :: "book list \<Rightarrow> book list \<Rightarrow> book list" where
  "mergeInventory prev nbs =
     prev @ filter (\<lambda>nb. \<not> list_ex (\<lambda>ib. book_id ib = book_id nb) prev) nbs"

definition searchResolved :: "nat \<Rightarrow> store \<Rightarrow> store" where
  "searchResolved k s =
     s\<lparr>inventory := mergeInventory (inventory s) (newBooks s k), isLoading := False\<rparr>"

definition searchRejected :: "book list \<Rightarrow> nat \<Rightarrow> store \<Rightarrow> store" where
  "searchRejected prebuiltBooks k s = s\<lparr>displayedBooks := prebuiltBooks, isLoading := False\<rparr>"

text \<open>
  What can happen to the component while searches are pending, and a run of such events
  in the order in which they happen.
\<close>

datatype event =
    Start (search: nat)
  | Item (search: nat) (payload: bookData)
  | Resolved (search: nat)
  | Rejected (search: nat)

fun step :: "env \<Rightarrow> book list \<Rightarrow> store \<Rightarrow> event \<Rightarrow> store" where
  "step w pb s (Start k) = searchStart k s"
| "step w pb s (Item k bd) = onItem w k bd s"
| "step w pb s (Resolved k) = searchResolved k s"
| "step w pb s (Rejected k) = searchRejected pb k s"

definition run :: "env \<Rightarrow> book list \<Rightarrow> event list \<Rightarrow> store \<Rightarrow> store" where
  "run w pb evs s = foldl (step w pb) s evs"

text \<open>Item arrivals of several pending searches, in the order in which they happen.\<close>

definition arrivals :: "(nat \<times> bookData) list \<Rightarrow> event list" where
  "arrivals items = map (\<lambda>(k, bd). Item k bd) items"

text \<open>
  Which events call \<open>setDisplayedBooks\<close> (line 49 at a start, line 66 in the callback,
  line 73 after a rejection; the continuation after a fulfilled promise does not), and
  the list such an event leaves displayed, read in a state in which no later event has
  called \<open>setDisplayedBooks\<close>: the empty list, the array \<open>newBooks\<close> of the search
  of the item, or \<open>prebuiltBooks\<close>.
\<close>

fun setsDisplayedBooks :: "event \<Rightarrow> bool" where
  "setsDisplayedBooks (Start k) = True"
| "setsDisplayedBooks (Item k bd) = True"
| "setsDisplayedBooks (Resolved k) = False"
| "setsDisplayedBooks (Rejected k) = True"

fun displayedBy :: "book list \<Rightarrow> store \<Rightarrow> event \<Rightarrow> book list" where
  "displayedBy pb s (Start k) = []"
| "displayedBy pb s (Item k bd) = newBooks s k"
| "displayedBy pb s (Resolved k) = displayedBooks s"
| "displayedBy pb s (Rejected k) = pb"

text \<open>The part of a book that came from the stream.\<close>

definition dataOf :: "book \<Rightarrow> bookData" where
  "dataOf b =
     \<lparr>title = title b, author = author b, summary = summary b, category = category b,
      publicationDate = publicationDate b, pages = pages b\<rparr>"

subsection \<open>The recommendation stream\<close>

text \<open>
  Modelled from the spec: \<open>streamBookRecommendations\<close> lives in
  \<open>services/geminiService\<close>, outside \<open>src/Bookstore.tsx\<close> and
  \<open>src/types.ts\<close>. The spec (4.1, 6
  and 7) says that the stream yields raw payloads with the fields title, author, summary,
  category, publicationDate and pages, that a payload lacking one of them is dropped
  without ending the stream, and that every other payload is handed to the callback in
  arrival order. A raw payload is a record of optional fields; \<open>validate\<close> keeps a
  payload exactly when all six are present.
\<close>

record rawPayload =
  raw_title :: "string option"
  raw_author :: "string option"
  raw_summary :: "string option"
  raw_category :: "string option"
  raw_publicationDate :: "string option"
  raw_pages :: "int option"

definition validate :: "rawPayload \<Rightarrow> bookData option" where
  "validate p =
     (case (raw_title p, raw_author p, raw_summary p, raw_category p,
            raw_publicationDate p, raw_pages p) of
        (Some t, Some a, Some su, Some c, Some d, Some n) \<Rightarrow>
          Some \<lparr>title = t, author = a, summary = su, category = c,
                publicationDate = d, pages = n\<rparr>
      | _ \<Rightarrow> None)"

text \<open>
  Modelled from the spec: the items that \<open>streamBookRecommendations\<close> hands to its
  callback, in order, for a sequence of raw payloads.
\<close>

definition streamBookRecommendations :: "rawPayload list \<Rightarrow> bookData list" where
  "streamBookRecommendations payloads = List.map_filter validate payloads"

text \<open>
  One call of \<open>handleSearch\<close> with no other event in between: the payloads are the
  ones that arrive before the promise settles, \<open>ok\<close> tells whether it is fulfilled.
\<close>

definition handleSearch ::
  "env \<Rightarrow> book list \<Rightarrow> nat \<Rightarrow> rawPayload list \<Rightarrow> bool \<Rightarrow> store \<Rightarrow> store" where
  "handleSearch w pb k payloads ok s =
     run w pb (Start k # map (Item k) (streamBookRecommendations payloads)
               @ [if ok then Resolved k else Rejected k]) s"

section \<open>Initial state and sample inputs\<close>

text \<open>The initial values of the \<open>useState\<close> cells.\<close>

definition initialStore :: "book list \<Rightarrow> store" where
  "initialStore prebuiltBooks =
     \<lparr>displayedBooks = prebuiltBooks, inventory = prebuiltBooks, isLoading = False,
      selectedBook = None, currentView = Store, isAdmin = False, salesData = [], cart = [],
      notifications = [], newBooks = (\<lambda>k. []), uuid_calls = 0, random_calls = 0,
      date_calls = 0\<rparr>"

text \<open>
  A sample environment. Every draw of \<open>Math.random()\<close> is one half, for which the
  products and sums of \<open>newBook\<close> are exact in doubles (13 and 4.25).
\<close>

definition sampleEnv :: env where
  "sampleEnv = \<lparr>uuidv4 = (\<lambda>n. ''uuid-'' @ show_nat n), math_random = (\<lambda>n. 1 / 2),
                new_Date = (\<lambda>n. 1000 + int n),
                double_times = (\<lambda>x y. x * y), double_plus = (\<lambda>x y. x + y),
                toFixed1 = (\<lambda>x. real_of_int \<lfloor>x * 10 + 1 / 2\<rfloor> / 10)\<rparr>"

definition sampleBook :: "string \<Rightarrow> string \<Rightarrow> book" where
  "sampleBook i t =
     \<lparr>title = t, author = ''A'', summary = ''S'', category = ''C'', publicationDate = ''2020'',
      pages = 100, book_id = i, price = ''1000'', coverImageUrl = ''u'', rating = 4,
      reviews = [], isBestseller = None\<rparr>"

definition sampleData :: "string \<Rightarrow> bookData" where
  "sampleData t = \<lparr>title = t, author = ''A'', summary = ''S'', category = ''C'',
                    publicationDate = ''2020'', pages = 100\<rparr>"

definition samplePayload :: "string \<Rightarrow> rawPayload" where
  "samplePayload t =
     \<lparr>raw_title = Some t, raw_author = Some ''A'', raw_summary = Some ''S'',
      raw_category = Some ''C'', raw_publicationDate = Some ''2020'', raw_pages = Some 100\<rparr>"

definition supersededRun :: "event list" where
  "supersededRun =
     [Start 1, Item 1 (sampleData ''A''), Start 2, Item 2 (sampleData ''B''),
      Item 1 (sampleData ''C''), Resolved 2]"

definition sampleCart :: store where
  "sampleCart = (initialStore [])\<lparr>cart :=
     [toCartItem (sampleBook ''A'' ''Algebra'') 2, toCartItem (sampleBook ''B'' ''Botany'') 1]\<rparr>"

definition fullLog :: store where
  "fullLog = (initialStore [])\<lparr>notifications :=
     replicate 20 \<lparr>notif_id = ''n'', message = ''old'', timestamp = 0, read = True\<rparr>\<rparr>"

section \<open>Cart invariant\<close>

lemma foldl_quantity:
  "foldl (\<lambda>total item. total + quantity item) a c = a + sum_list (map quantity c)"
  by (induction c arbitrary: a) simp_all

lemma cart_addNotification [simp]: "cart (addNotification w m s) = cart s"
  by (simp add: addNotification_def Let_def)

lemma same_line:
  assumes "distinct (map book_id c)" "x \<in> set c" "y \<in> set c" "book_id x = book_id y"
  shows "x = y"
  using assms by (auto simp: distinct_map dest: inj_onD)

lemma ids_requantify:
  "map book_id (map (\<lambda>item. if P item then item\<lparr>quantity := f item\<rparr> else item) c) = map book_id c"
  by (induction c) simp_all

lemma set_requantify:
  "y \<in> set (map (\<lambda>item. if P item then item\<lparr>quantity := f item\<rparr> else item) c) \<Longrightarrow>
   \<exists>x\<in>set c. book_id y = book_id x \<and> quantity y = (if P x then f x else quantity x)"
  by (induction c) (auto split: if_splits)

lemma find_Some_set: "find P xs = Some x \<Longrightarrow> x \<in> set xs \<and> P x"
  by (induction xs) (auto split: if_splits)

lemma cart_handleAddToCart:
  "cart (handleAddToCart w b s) =
     (if book_id b \<in> book_id ` set (cart s)
      then map (\<lambda>item. if book_id item = book_id b
                         then item\<lparr>quantity := quantity item + 1\<rparr> else item) (cart s)
      else cart s @ [toCartItem b 1])"
proof (cases "find (\<lambda>item. book_id item = book_id b) (cart s)")
  case None
  then have "book_id b \<notin> book_id ` set (cart s)"
    by (auto simp: find_None_iff)
  with None show ?thesis by (simp add: handleAddToCart_def)
next
  case (Some x)
  then have "book_id b \<in> book_id ` set (cart s)"
    by (auto dest!: find_Some_set intro!: image_eqI[where x=x])
  with Some show ?thesis by (simp add: handleAddToCart_def)
qed

lemma cartOK_add: "cartOK (cart s) \<Longrightarrow> cartOK (cart (handleAddToCart w b s))"
  by (auto simp: cartOK_def cart_handleAddToCart toCartItem_def list_all_iff ids_requantify
      simp del: map_map dest!: set_requantify split: if_splits)

lemma cartOK_increase: "cartOK (cart s) \<Longrightarrow> cartOK (cart (handleIncreaseQuantity i s))"
  by (auto simp: cartOK_def handleIncreaseQuantity_def list_all_iff ids_requantify
      simp del: map_map dest!: set_requantify split: if_splits)

lemma cartOK_remove: "cartOK (cart s) \<Longrightarrow> cartOK (cart (handleRemoveFromCart b s))"
  by (auto simp: cartOK_def handleRemoveFromCart_def list_all_iff distinct_map_filter)

lemma cartOK_decrease: "cartOK (cart s) \<Longrightarrow> cartOK (cart (handleDecreaseQuantity i s))"
proof -
  assume ok: "cartOK (cart s)"
  show ?thesis
  proof (cases "find (\<lambda>item. book_id item = i) (cart s)")
    case None
    with ok show ?thesis
      by (auto simp: cartOK_def handleDecreaseQuantity_def list_all_iff distinct_map_filter)
  next
    case (Some x)
    then have x: "x \<in> set (cart s)" "book_id x = i"
      by (auto dest!: find_Some_set)
    show ?thesis
    proof (cases "quantity x > 1")
      case False
      with ok Some show ?thesis
        by (auto simp: cartOK_def handleDecreaseQuantity_def list_all_iff distinct_map_filter)
    next
      case True
      have "1 \<le> quantity y - 1" if "y \<in> set (cart s)" "book_id y = i" for y
        using same_line[of "cart s" x y] ok x that True by (simp add: cartOK_def)
      with ok Some True show ?thesis
        by (auto simp: cartOK_def handleDecreaseQuantity_def list_all_iff ids_requantify
            simp del: map_map dest!: set_requantify split: if_splits)
    qed
  qed
qed

lemma cartOK_runOps: "cartOK (cart s) \<Longrightarrow> cartOK (cart (runOps w ops s))"
  unfolding runOps_def
proof (induction ops arbitrary: s)
  case Nil
  then show ?case by simp
next
  case (Cons op ops)
  have "cartOK (cart (applyOp w s op))"
    using Cons.prems by (cases op) (simp_all add: cartOK_add cartOK_increase cartOK_remove cartOK_decrease)
  then show ?case using Cons.IH by simp
qed


lemma cart_decrease_last_unit:
  assumes "distinct (map book_id (cart s))" "item \<in> set (cart s)" "quantity item = 1"
  shows "cart (handleDecreaseQuantity (book_id item) s) =
         filter (\<lambda>i. book_id i \<noteq> book_id item) (cart s)"
proof (cases "find (\<lambda>i. book_id i = book_id item) (cart s)")
  case None
  then show ?thesis by (simp add: handleDecreaseQuantity_def)
next
  case (Some x)
  then have "x \<in> set (cart s)" "book_id x = book_id item"
    by (auto dest!: find_Some_set)
  then have "x = item" using same_line assms by blast
  with Some assms show ?thesis by (simp add: handleDecreaseQuantity_def)
qed

text \<open>
  C1. For every sequence of add, increase, decrease and remove operations applied to an
  empty cart, after each initial part of the sequence the total item count (the fold of
  \<open>totalCartItems\<close>) is the sum of the quantities of the lines of the cart, every line
  has a quantity above 0, and decreasing a line whose quantity is 1 removes that line and
  leaves the others as they are.
\<close>

theorem cart_quantities_positive:
  assumes "cart s0 = []"
  shows "totalCartItems (runOps w (take n ops) s0)
           = sum_list (map quantity (cart (runOps w (take n ops) s0)))
       \<and> (\<forall>item \<in> set (cart (runOps w (take n ops) s0)). 0 < quantity item)
       \<and> (\<forall>item \<in> set (cart (runOps w (take n ops) s0)). quantity item = 1 \<longrightarrow>
            cart (handleDecreaseQuantity (book_id item) (runOps w (take n ops) s0))
              = filter (\<lambda>i. book_id i \<noteq> book_id item) (cart (runOps w (take n ops) s0)))"
proof -
  let ?s = "runOps w (take n ops) s0"
  have "cartOK (cart s0)" using assms by (simp add: cartOK_def)
  then have ok: "cartOK (cart ?s)" by (rule cartOK_runOps)
  have "totalCartItems ?s = sum_list (map quantity (cart ?s))"
    by (simp add: totalCartItems_def foldl_quantity)
  moreover have "\<forall>item \<in> set (cart ?s). 0 < quantity item"
    using ok by (auto simp: cartOK_def list_all_iff)
  moreover have "\<forall>item \<in> set (cart ?s). quantity item = 1 \<longrightarrow>
      cart (handleDecreaseQuantity (book_id item) ?s)
        = filter (\<lambda>i. book_id i \<noteq> book_id item) (cart ?s)"
    using ok cart_decrease_last_unit by (simp add: cartOK_def)
  ultimately show ?thesis by blast
qed

theorem cart_quantities_positive_witness:
  "cart (initialStore []) = []
   \<and> map (\<lambda>i. (book_id i, quantity i))
        (cart (runOps sampleEnv
           (take 3 [Add (sampleBook ''a'' ''T''), Add (sampleBook ''b'' ''U''),
                    Add (sampleBook ''a'' ''T''), Remove (sampleBook ''a'' ''T'')])
           (initialStore []))) = [(''a'', 2), (''b'', 1)]
   \<and> totalCartItems (runOps sampleEnv
           (take 3 [Add (sampleBook ''a'' ''T''), Add (sampleBook ''b'' ''U''),
                    Add (sampleBook ''a'' ''T''), Remove (sampleBook ''a'' ''T'')])
           (initialStore [])) = 3
   \<and> map book_id (cart (handleDecreaseQuantity ''b'' (runOps sampleEnv
           (take 3 [Add (sampleBook ''a'' ''T''), Add (sampleBook ''b'' ''U''),
                    Add (sampleBook ''a'' ''T''), Remove (sampleBook ''a'' ''T'')])
           (initialStore [])))) = [''a'']"
  using cart_quantities_positive [of "initialStore []" sampleEnv 3
      "[Add (sampleBook ''a'' ''T''), Add (sampleBook ''b'' ''U''),
        Add (sampleBook ''a'' ''T''), Remove (sampleBook ''a'' ''T'')]"]
  by (simp add: initialStore_def runOps_def sampleBook_def handleAddToCart_def
      handleDecreaseQuantity_def toCartItem_def addNotification_def totalCartItems_def)


section \<open>Notification log\<close>

lemma pushAll_snoc: "pushAll w (ms @ [m]) s = addNotification w m (pushAll w ms s)"
  by (simp add: pushAll_def)

lemma pushAll_calls:
  "uuid_calls (pushAll w ms s) = uuid_calls s + length ms \<and>
   date_calls (pushAll w ms s) = date_calls s + length ms"
  by (induction ms rule: rev_induct) (simp_all add: pushAll_def addNotification_def Let_def)

lemma pushAll_log:
  assumes "length (notifications s) \<le> 20"
  shows "notifications (pushAll w ms s) =
         take 20 (rev (map (\<lambda>i. \<lparr>notif_id = uuidv4 w (uuid_calls s + i), message = ms ! i,
                                  timestamp = new_Date w (date_calls s + i), read = False\<rparr>)
                       [0..<length ms]) @ notifications s)"
proof (induction ms rule: rev_induct)
  case Nil
  with assms show ?case by (simp add: pushAll_def)
next
  case (snoc m ms)
  have same: "map (\<lambda>i. \<lparr>notif_id = uuidv4 w (uuid_calls s + i), message = (ms @ [m]) ! i,
                         timestamp = new_Date w (date_calls s + i), read = False\<rparr>) [0..<length ms]
            = map (\<lambda>i. \<lparr>notif_id = uuidv4 w (uuid_calls s + i), message = ms ! i,
                         timestamp = new_Date w (date_calls s + i), read = False\<rparr>) [0..<length ms]"
    by (rule map_cong) (simp_all add: nth_append)
  show ?case
    using snoc.IH pushAll_calls[of w ms s]
    by (simp add: pushAll_snoc addNotification_def Let_def same del: upt_Suc)
      (simp add: same min_def)
qed


text \<open>
  C5. Starting from a log of at most 20 entries, after any sequence of pushes the log has
  at most 20 entries; a further push puts the new notification at index 0; the log is the
  new notifications, newest first, followed by the old log, cut to 20 entries; so what
  remains of the old log after n pushes is its first 20 - n entries, a part that only
  shrinks as n grows.
\<close>

theorem notification_log_capped:
  assumes "length (notifications s) \<le> 20"
  shows "length (notifications (pushAll w ms s)) \<le> 20
       \<and> notifications (addNotification w m (pushAll w ms s)) ! 0 =
            \<lparr>notif_id = uuidv4 w (uuid_calls s + length ms), message = m,
             timestamp = new_Date w (date_calls s + length ms), read = False\<rparr>
       \<and> notifications (pushAll w ms s) =
            take 20 (rev (map (\<lambda>i. \<lparr>notif_id = uuidv4 w (uuid_calls s + i), message = ms ! i,
                                     timestamp = new_Date w (date_calls s + i), read = False\<rparr>)
                          [0..<length ms]) @ notifications s)
       \<and> drop (length ms) (notifications (pushAll w ms s)) = take (20 - length ms) (notifications s)"
proof -
  note log = pushAll_log [OF assms, of w ms]
  have "length (notifications (pushAll w ms s)) \<le> 20"
    by (subst log) simp
  moreover have "notifications (addNotification w m (pushAll w ms s)) ! 0 =
            \<lparr>notif_id = uuidv4 w (uuid_calls s + length ms), message = m,
             timestamp = new_Date w (date_calls s + length ms), read = False\<rparr>"
    using pushAll_calls [of w ms s] by (simp add: addNotification_def Let_def)
  moreover have "drop (length ms) (notifications (pushAll w ms s))
                   = take (20 - length ms) (notifications s)"
    by (subst log) (cases "length ms \<le> 20"; simp add: drop_take min_def)
  ultimately show ?thesis using log by blast
qed

theorem notification_log_capped_witness:
  "length (notifications fullLog) \<le> 20
   \<and> length (notifications (pushAll sampleEnv [''x'', ''y''] fullLog)) \<le> 20
   \<and> message (notifications (addNotification sampleEnv ''z'' (pushAll sampleEnv [''x'', ''y''] fullLog)) ! 0) = ''z''
   \<and> map message (notifications (pushAll sampleEnv [''x'', ''y''] fullLog))
       = ''y'' # ''x'' # replicate 18 ''old''"
  using notification_log_capped [of fullLog sampleEnv "[''x'', ''y'']" "''z''"]
  by (simp add: fullLog_def initialStore_def pushAll_def addNotification_def)

section \<open>Adding to the cart\<close>

text \<open>
  C7. For every cart and book: if the id of the book is in the cart, adding it adds 1 to
  the quantity of the line with that id, keeps the order of the lines and leaves the
  notification log as it is; if the id is not in the cart, adding it appends a line with
  quantity 1 at the end and puts one new notification in front of the log, whose message
  is the title in double quotes followed by " added to cart.".
\<close>

theorem add_to_cart:
  "(book_id b \<in> book_id ` set (cart s) \<longrightarrow>
      cart (handleAddToCart w b s) =
        map (\<lambda>item. if book_id item = book_id b
                      then item\<lparr>quantity := quantity item + 1\<rparr> else item) (cart s)
      \<and> map book_id (cart (handleAddToCart w b s)) = map book_id (cart s)
      \<and> notifications (handleAddToCart w b s) = notifications s)
   \<and> (book_id b \<notin> book_id ` set (cart s) \<longrightarrow>
      cart (handleAddToCart w b s) = cart s @ [toCartItem b 1]
      \<and> book_id (toCartItem b 1) = book_id b \<and> quantity (toCartItem b 1) = 1
      \<and> notifications (handleAddToCart w b s) =
          \<lparr>notif_id = uuidv4 w (uuid_calls s),
           message = dq # title b @ dq # '' added to cart.'',
           timestamp = new_Date w (date_calls s), read = False\<rparr> # take 19 (notifications s))"
proof (cases "find (\<lambda>item. book_id item = book_id b) (cart s)")
  case None
  then have "book_id b \<notin> book_id ` set (cart s)"
    by (auto simp: find_None_iff)
  with None show ?thesis
    by (simp add: handleAddToCart_def addNotification_def toCartItem_def)
next
  case (Some x)
  then have "book_id b \<in> book_id ` set (cart s)"
    by (auto dest!: find_Some_set intro!: image_eqI[where x=x])
  with Some show ?thesis
    by (simp add: handleAddToCart_def ids_requantify del: map_map)
qed

theorem add_to_cart_witness:
  "book_id (sampleBook ''a'' ''T'') \<notin> book_id ` set (cart (initialStore []))
   \<and> map (\<lambda>i. (book_id i, quantity i)) (cart (handleAddToCart sampleEnv (sampleBook ''a'' ''T'') (initialStore []))) = [(''a'', 1)]
   \<and> map message (notifications (handleAddToCart sampleEnv (sampleBook ''a'' ''T'') (initialStore [])))
       = [dq # ''T'' @ dq # '' added to cart.'']
   \<and> book_id (sampleBook ''a'' ''T'')
        \<in> book_id ` set (cart (handleAddToCart sampleEnv (sampleBook ''a'' ''T'') (initialStore [])))
   \<and> map (\<lambda>i. (book_id i, quantity i))
        (cart (handleAddToCart sampleEnv (sampleBook ''a'' ''T'')
                (handleAddToCart sampleEnv (sampleBook ''a'' ''T'') (initialStore [])))) = [(''a'', 2)]
   \<and> notifications (handleAddToCart sampleEnv (sampleBook ''a'' ''T'')
                (handleAddToCart sampleEnv (sampleBook ''a'' ''T'') (initialStore [])))
      = notifications (handleAddToCart sampleEnv (sampleBook ''a'' ''T'') (initialStore []))"
  using add_to_cart [of "sampleBook ''a'' ''T''" "initialStore []" sampleEnv]
    add_to_cart [of "sampleBook ''a'' ''T''"
      "handleAddToCart sampleEnv (sampleBook ''a'' ''T'') (initialStore [])" sampleEnv]
  by (simp add: initialStore_def sampleBook_def toCartItem_def)

section \<open>Checkout of an empty cart\<close>

text \<open>
  C9. Confirming a purchase with an empty cart leaves the sales log and the notification
  log as they are; the cart is empty afterwards and the view is the store.
\<close>

theorem confirm_empty_cart:
  assumes "cart s = []"
  shows "salesData (handleConfirmCartPurchase w s) = salesData s
       \<and> notifications (handleConfirmCartPurchase w s) = notifications s
       \<and> cart (handleConfirmCartPurchase w s) = []
       \<and> currentView (handleConfirmCartPurchase w s) = Store"
  using assms by (simp add: handleConfirmCartPurchase_def)

theorem confirm_empty_cart_witness:
  "cart (initialStore []) = []
   \<and> salesData (handleConfirmCartPurchase sampleEnv (initialStore [])) = []
   \<and> notifications (handleConfirmCartPurchase sampleEnv (initialStore [])) = []
   \<and> cart (handleConfirmCartPurchase sampleEnv (initialStore [])) = []
   \<and> currentView (handleConfirmCartPurchase sampleEnv (initialStore [])) = Store"
  using confirm_empty_cart [of "initialStore []" sampleEnv]
  by (simp add: initialStore_def)

section \<open>Search\<close>

lemma run_snoc: "run w pb (evs @ [e]) s = step w pb (run w pb evs s) e"
  by (simp add: run_def)

lemma run_Cons: "run w pb (e # evs) s = run w pb evs (step w pb s e)"
  by (simp add: run_def)

text \<open>
  C10. The start of a search sets the displayed list to the empty list and the loading
  flag, before any item of its stream arrives: whatever happened before, the displayed
  list is empty right after the start. The inventory is not touched.
\<close>

theorem search_start_clears_display:
  "displayedBooks (searchStart k s) = []
   \<and> isLoading (searchStart k s)
   \<and> displayedBooks (run w pb (evs @ [Start k]) s) = []
   \<and> inventory (searchStart k s) = inventory s"
  by (simp add: run_snoc searchStart_def)

lemma mergeInventory_eq:
  "mergeInventory prev nbs = prev @ filter (\<lambda>nb. book_id nb \<notin> book_id ` set prev) nbs"
proof -
  have "(\<not> list_ex (\<lambda>ib. book_id ib = book_id nb) prev) = (book_id nb \<notin> book_id ` set prev)"
    for nb :: book
    by (auto simp: list_ex_iff) (metis imageI)
  then show ?thesis by (simp add: mergeInventory_def)
qed

text \<open>
  C8. When the promise of a search is fulfilled, the inventory becomes the old inventory
  followed by those books of the accumulated list whose id is not the id of any book of
  the old inventory, in arrival order: books with a new id are appended, books with a
  known id are skipped, and the old inventory stays as the initial part of the new one.
\<close>

theorem inventory_merge:
  "inventory (searchResolved k s) =
     inventory s @ filter (\<lambda>nb. book_id nb \<notin> book_id ` set (inventory s)) (newBooks s k)
   \<and> take (length (inventory s)) (inventory (searchResolved k s)) = inventory s
   \<and> inventory (run w pb (evs @ [Resolved k]) s) =
       inventory (run w pb evs s)
         @ filter (\<lambda>nb. book_id nb \<notin> book_id ` set (inventory (run w pb evs s)))
             (newBooks (run w pb evs s) k)"
  by (simp add: run_snoc searchResolved_def mergeInventory_eq)

section \<open>A search started while another is pending\<close>

lemma dataOf_newBook [simp]: "dataOf (newBook w nu nr bd) = bd"
  by (simp add: dataOf_def newBook_def Let_def)

lemma book_id_newBook [simp]: "book_id (newBook w nu nr bd) = uuidv4 w nu"
  by (simp add: newBook_def Let_def)

lemma arrivals_snoc: "arrivals (items @ [(k, bd)]) = arrivals items @ [Item k bd]"
  by (simp add: arrivals_def)

lemma newBooks_arrivals:
  "map dataOf (newBooks (run w pb (arrivals items) s) k) =
     map dataOf (newBooks s k) @ map snd (filter (\<lambda>(j, bd). j = k) items)"
proof (induction items rule: rev_induct)
  case Nil
  show ?case by (simp add: arrivals_def run_def)
next
  case (snoc x items)
  obtain j bd where x: "x = (j, bd)" by (cases x)
  show ?case using snoc.IH
    by (auto simp: x arrivals_snoc run_snoc onItem_def Let_def)
qed

lemma displayed_arrivals:
  "displayedBooks (run w pb (arrivals items) s) =
     (if items = [] then displayedBooks s
      else newBooks (run w pb (arrivals items) s) (fst (last items)))"
proof (cases items rule: rev_cases)
  case Nil
  then show ?thesis by (simp add: arrivals_def run_def)
next
  case (snoc items' x)
  obtain j bd where x: "x = (j, bd)" by (cases x)
  show ?thesis
    by (simp add: snoc x arrivals_snoc run_snoc onItem_def Let_def)
qed

lemma displayedBy_searchResolved:
  "setsDisplayedBooks e \<Longrightarrow> displayedBy pb (searchResolved k s) e = displayedBy pb s e"
  by (cases e) (simp_all add: searchResolved_def)

lemma displayed_run:
  "displayedBooks (run w pb evs s) =
     (if filter setsDisplayedBooks evs = [] then displayedBooks s
      else displayedBy pb (run w pb evs s) (last (filter setsDisplayedBooks evs)))"
proof (induction evs rule: rev_induct)
  case Nil
  show ?case by (simp add: run_def)
next
  case (snoc e evs)
  show ?case
  proof (cases e)
    case (Start k)
    then show ?thesis by (simp add: run_snoc searchStart_def)
  next
    case (Item k bd)
    then show ?thesis by (simp add: run_snoc onItem_def Let_def)
  next
    case (Rejected k)
    then show ?thesis by (simp add: run_snoc searchRejected_def)
  next
    case (Resolved k)
    have keep: "displayedBooks (searchResolved k (run w pb evs s)) = displayedBooks (run w pb evs s)"
      by (simp add: searchResolved_def)
    show ?thesis
    proof (cases "filter setsDisplayedBooks evs = []")
      case True
      with Resolved snoc.IH keep show ?thesis by (simp add: run_snoc)
    next
      case False
      then have "setsDisplayedBooks (last (filter setsDisplayedBooks evs))"
        using last_in_set [of "filter setsDisplayedBooks evs"] by auto
      with False Resolved snoc.IH keep show ?thesis
        by (simp add: run_snoc displayedBy_searchResolved)
    qed
  qed
qed

lemma displayed_after_start:
  "displayedBooks (run w pb (Start k2 # evs @ [Resolved k2]) s) =
     displayedBy pb (run w pb (Start k2 # evs @ [Resolved k2]) s)
       (last (filter setsDisplayedBooks (Start k2 # evs)))"
  using displayed_run [of w pb "Start k2 # evs @ [Resolved k2]" s] by simp


text \<open>
  C2, as the code has it. A second search \<open>k2\<close> is started in any state (so with any
  other search pending), and later it is fulfilled. Every event that sets the displayed
  list overwrites it, whichever search it belongs to, so when the second search is
  fulfilled the displayed list is what the last such event since its start has left: the
  empty list after a start, the accumulated list of the search whose item arrived, the
  fallback catalog after a failure (so the catalog when another search \<open>k1\<close> fails
  just before). When only items arrive in between, the displayed list is the accumulated
  list of the search whose item arrived last (the empty list when no item arrived); it is
  the list of the second search exactly when no item arrived or the last item that
  arrived was one of the second search. In such a run the accumulated list of the second
  search holds its own items, in arrival order, and that of another search \<open>k1\<close>
  keeps growing by its own items.
\<close>

theorem superseded_search_display:
  "displayedBooks (run w pb (Start k2 # arrivals items @ [Resolved k2]) s) =
     (if items = [] then []
      else newBooks (run w pb (Start k2 # arrivals items @ [Resolved k2]) s) (fst (last items)))
   \<and> map dataOf (newBooks (run w pb (Start k2 # arrivals items @ [Resolved k2]) s) k2)
       = map snd (filter (\<lambda>(j, bd). j = k2) items)
   \<and> (k1 \<noteq> k2 \<longrightarrow>
        map dataOf (newBooks (run w pb (Start k2 # arrivals items @ [Resolved k2]) s) k1)
          = map dataOf (newBooks s k1) @ map snd (filter (\<lambda>(j, bd). j = k1) items))
   \<and> (items = [] \<or> fst (last items) = k2 \<longrightarrow>
        displayedBooks (run w pb (Start k2 # arrivals items @ [Resolved k2]) s)
          = newBooks (run w pb (Start k2 # arrivals items @ [Resolved k2]) s) k2)
   \<and> displayedBooks (run w pb (Start k2 # evs @ [Resolved k2]) s) =
        displayedBy pb (run w pb (Start k2 # evs @ [Resolved k2]) s)
          (last (filter setsDisplayedBooks (Start k2 # evs)))
   \<and> displayedBooks (run w pb (Start k2 # evs @ [Rejected k1, Resolved k2]) s) = pb"
proof -
  let ?s1 = "searchStart k2 s"
  let ?s2 = "run w pb (arrivals items) ?s1"
  let ?final = "run w pb (Start k2 # arrivals items @ [Resolved k2]) s"
  have final: "?final = searchResolved k2 ?s2"
    by (simp add: run_Cons run_snoc)
  have d: "displayedBooks ?final = displayedBooks ?s2" and n: "newBooks ?final = newBooks ?s2"
    by (simp_all add: final searchResolved_def)
  have d2: "displayedBooks ?s2 = (if items = [] then [] else newBooks ?s2 (fst (last items)))"
    by (simp add: displayed_arrivals searchStart_def)
  have n2: "map dataOf (newBooks ?s2 k2) = map snd (filter (\<lambda>(j, bd). j = k2) items)"
    by (simp add: newBooks_arrivals searchStart_def)
  have n1: "k1 \<noteq> k2 \<Longrightarrow> map dataOf (newBooks ?s2 k1)
          = map dataOf (newBooks s k1) @ map snd (filter (\<lambda>(j, bd). j = k1) items)"
    by (simp add: newBooks_arrivals searchStart_def)
  have e: "items = [] \<Longrightarrow> newBooks ?s2 k2 = []"
    using n2 by simp
  have items_part:
    "displayedBooks ?final = (if items = [] then [] else newBooks ?final (fst (last items)))
     \<and> map dataOf (newBooks ?final k2) = map snd (filter (\<lambda>(j, bd). j = k2) items)
     \<and> (k1 \<noteq> k2 \<longrightarrow> map dataOf (newBooks ?final k1)
          = map dataOf (newBooks s k1) @ map snd (filter (\<lambda>(j, bd). j = k1) items))
     \<and> (items = [] \<or> fst (last items) = k2 \<longrightarrow> displayedBooks ?final = newBooks ?final k2)"
    unfolding d n using d2 n2 n1 e by auto
  have general: "displayedBooks (run w pb (Start k2 # evs @ [Resolved k2]) s) =
        displayedBy pb (run w pb (Start k2 # evs @ [Resolved k2]) s)
          (last (filter setsDisplayedBooks (Start k2 # evs)))"
    by (rule displayed_after_start)
  have failed: "displayedBooks (run w pb (Start k2 # evs @ [Rejected k1, Resolved k2]) s) = pb"
    using displayed_after_start [of w pb k2 "evs @ [Rejected k1]" s] by simp
  from items_part general failed show ?thesis by blast
qed

text \<open>
  C2 as stated fails: the first search delivers an item after the second search has
  delivered its only item, and when the second search is fulfilled the displayed list is
  the list of the first search.
\<close>

theorem superseded_search_counterexample:
  "map title (displayedBooks (run sampleEnv [] supersededRun (initialStore []))) = [''A'', ''C'']
   \<and> map title (newBooks (run sampleEnv [] supersededRun (initialStore [])) 2) = [''B'']
   \<and> displayedBooks (run sampleEnv [] supersededRun (initialStore []))
       \<noteq> newBooks (run sampleEnv [] supersededRun (initialStore [])) 2"
  by (simp add: supersededRun_def run_def initialStore_def searchStart_def onItem_def
      searchResolved_def newBook_def sampleData_def Let_def)

theorem superseded_search_display_witness:
  "(1::nat) \<noteq> 2
   \<and> map title (displayedBooks (run sampleEnv [] (Start 2 # arrivals [(1, sampleData ''C''), (2, sampleData ''B'')] @ [Resolved 2])
        (run sampleEnv [] [Start 1, Item 1 (sampleData ''A'')] (initialStore [])))) = [''B'']
   \<and> map title (newBooks (run sampleEnv [] (Start 2 # arrivals [(1, sampleData ''C''), (2, sampleData ''B'')] @ [Resolved 2])
        (run sampleEnv [] [Start 1, Item 1 (sampleData ''A'')] (initialStore []))) 1) = [''A'', ''C'']
   \<and> map book_id (displayedBooks (run sampleEnv [sampleBook ''p'' ''P'']
        (Start 2 # [Item 2 (sampleData ''B'')] @ [Rejected 1, Resolved 2])
        (run sampleEnv [sampleBook ''p'' ''P''] [Start 1, Item 1 (sampleData ''A'')]
           (initialStore [sampleBook ''p'' ''P''])))) = [''p'']
   \<and> map title (displayedBooks (run sampleEnv [sampleBook ''p'' ''P'']
        (Start 2 # [Item 2 (sampleData ''B''), Resolved 1, Item 1 (sampleData ''C'')] @ [Resolved 2])
        (run sampleEnv [sampleBook ''p'' ''P''] [Start 1, Item 1 (sampleData ''A'')]
           (initialStore [sampleBook ''p'' ''P''])))) = [''A'', ''C'']"
  using superseded_search_display [where w = sampleEnv and pb = "[]" and ?k2.0 = 2
      and items = "[(1, sampleData ''C''), (2, sampleData ''B'')]"
      and s = "run sampleEnv [] [Start 1, Item 1 (sampleData ''A'')] (initialStore [])"
      and ?k1.0 = 1 and evs = "[]"]
    superseded_search_display [where w = sampleEnv and pb = "[sampleBook ''p'' ''P'']"
      and ?k2.0 = 2 and items = "[]"
      and s = "run sampleEnv [sampleBook ''p'' ''P''] [Start 1, Item 1 (sampleData ''A'')]
                 (initialStore [sampleBook ''p'' ''P''])"
      and ?k1.0 = 1 and evs = "[Item 2 (sampleData ''B'')]"]
    superseded_search_display [where w = sampleEnv and pb = "[sampleBook ''p'' ''P'']"
      and ?k2.0 = 2 and items = "[]"
      and s = "run sampleEnv [sampleBook ''p'' ''P''] [Start 1, Item 1 (sampleData ''A'')]
                 (initialStore [sampleBook ''p'' ''P''])"
      and ?k1.0 = 1 and evs = "[Item 2 (sampleData ''B''), Resolved 1, Item 1 (sampleData ''C'')]"]
  by (simp add: arrivals_def run_def initialStore_def searchStart_def onItem_def
      searchResolved_def searchRejected_def newBook_def sampleData_def sampleBook_def Let_def)


section \<open>A failed search\<close>

lemma inventory_arrivals [simp]: "inventory (run w pb (map (Item k) bds) s) = inventory s"
  by (induction bds rule: rev_induct) (simp_all add: run_def onItem_def Let_def)

lemma newBooks_items_ids:
  "b \<in> set (newBooks (run w pb (map (Item k) bds) s) k) \<Longrightarrow>
   b \<in> set (newBooks s k) \<or> (\<exists>n. book_id b = uuidv4 w n)"
proof (induction bds arbitrary: b rule: rev_induct)
  case Nil
  then show ?case by (simp add: run_def)
next
  case (snoc bd bds)
  then show ?case
    by (auto simp: run_snoc onItem_def Let_def)
qed

lemma displayed_items:
  "displayedBooks (run w pb (map (Item k) bds) s) =
     (if bds = [] then displayedBooks s else newBooks (run w pb (map (Item k) bds) s) k)"
  by (cases bds rule: rev_cases) (simp_all add: run_def onItem_def Let_def)

text \<open>
  C6. A search is started, any number of items arrive and are displayed, then the stream
  fails. Provided that the fallback catalog is not empty and that no id drawn from
  \<open>uuidv4()\<close> is the id of a book of the catalog, the displayed list is then the
  fallback catalog, it is not empty, it is not the list that was displayed just before
  the failure, the inventory is what it was before the search, and the loading flag is
  cleared. The rejection itself sets the displayed list to the catalog and keeps the
  inventory in any state.
\<close>

theorem failed_search_falls_back:
  assumes "pb \<noteq> []" and "\<forall>n. uuidv4 w n \<notin> book_id ` set pb"
  shows "displayedBooks (run w pb (Start k # map (Item k) bds @ [Rejected k]) s) = pb
       \<and> displayedBooks (run w pb (Start k # map (Item k) bds @ [Rejected k]) s) \<noteq> []
       \<and> displayedBooks (run w pb (Start k # map (Item k) bds @ [Rejected k]) s)
            \<noteq> displayedBooks (run w pb (Start k # map (Item k) bds) s)
       \<and> inventory (run w pb (Start k # map (Item k) bds @ [Rejected k]) s) = inventory s
       \<and> \<not> isLoading (run w pb (Start k # map (Item k) bds @ [Rejected k]) s)
       \<and> displayedBooks (searchRejected pb k s) = pb
       \<and> inventory (searchRejected pb k s) = inventory s"
proof -
  let ?before = "run w pb (Start k # map (Item k) bds) s"
  let ?final = "run w pb (Start k # map (Item k) bds @ [Rejected k]) s"
  have final: "?final = searchRejected pb k ?before"
    using run_snoc [of w pb "Start k # map (Item k) bds" "Rejected k" s] by simp
  have before: "?before = run w pb (map (Item k) bds) (searchStart k s)"
    by (simp add: run_Cons)
  have d: "displayedBooks ?final = pb"
    by (simp add: final searchRejected_def)
  have i: "inventory ?final = inventory s"
    by (simp add: final before searchRejected_def searchStart_def)
  have l: "\<not> isLoading ?final"
    by (simp add: final searchRejected_def)
  have fresh: "\<exists>n. book_id b = uuidv4 w n" if "b \<in> set (displayedBooks ?before)" for b
  proof (cases "bds = []")
    case True
    with that show ?thesis by (simp add: before run_def searchStart_def)
  next
    case False
    with that have "b \<in> set (newBooks (run w pb (map (Item k) bds) (searchStart k s)) k)"
      by (simp add: before displayed_items)
    then show ?thesis
      using newBooks_items_ids [of b w pb k bds "searchStart k s"]
      by (simp add: searchStart_def)
  qed
  have "pb \<noteq> displayedBooks ?before"
  proof
    assume eq: "pb = displayedBooks ?before"
    from assms(1) obtain b where b: "b \<in> set pb" by (cases pb) auto
    with eq fresh obtain n where "book_id b = uuidv4 w n" by auto
    with assms(2) b show False by (metis imageI)
  qed
  with d i l assms(1) show ?thesis
    by (simp add: searchRejected_def)
qed

theorem failed_search_falls_back_witness:
  "[sampleBook ''a'' ''T''] \<noteq> []
   \<and> (\<forall>n. uuidv4 sampleEnv n \<notin> book_id ` set [sampleBook ''a'' ''T''])
   \<and> map book_id (displayedBooks (run sampleEnv [sampleBook ''a'' ''T'']
        (Start 1 # map (Item 1) [sampleData ''A'', sampleData ''B''] @ [Rejected 1])
        (initialStore [sampleBook ''a'' ''T'']))) = [''a'']
   \<and> map title (displayedBooks (run sampleEnv [sampleBook ''a'' ''T'']
        (Start 1 # map (Item 1) [sampleData ''A'', sampleData ''B''])
        (initialStore [sampleBook ''a'' ''T'']))) = [''A'', ''B'']
   \<and> map book_id (inventory (run sampleEnv [sampleBook ''a'' ''T'']
        (Start 1 # map (Item 1) [sampleData ''A'', sampleData ''B''] @ [Rejected 1])
        (initialStore [sampleBook ''a'' ''T'']))) = [''a'']"
  using failed_search_falls_back [of "[sampleBook ''a'' ''T'']" sampleEnv 1
      "[sampleData ''A'', sampleData ''B'']" "initialStore [sampleBook ''a'' ''T'']"]
  by (simp add: sampleEnv_def sampleBook_def run_def initialStore_def searchStart_def
      onItem_def searchRejected_def newBook_def sampleData_def Let_def)

section \<open>Malformed payloads\<close>

lemma validate_None_iff:
  "validate p = None \<longleftrightarrow>
     raw_title p = None \<or> raw_author p = None \<or> raw_summary p = None \<or>
     raw_category p = None \<or> raw_publicationDate p = None \<or> raw_pages p = None"
  by (auto simp: validate_def split: option.splits)

lemma run_items:
  "newBooks (run w pb (map (Item k) bds) s) k =
     newBooks s k @ map (\<lambda>i. newBook w (uuid_calls s + i) (random_calls s + 3 * i) (bds ! i))
                        [0..<length bds]
   \<and> uuid_calls (run w pb (map (Item k) bds) s) = uuid_calls s + length bds
   \<and> random_calls (run w pb (map (Item k) bds) s) = random_calls s + 3 * length bds"
proof (induction bds rule: rev_induct)
  case Nil
  show ?case by (simp add: run_def)
next
  case (snoc bd bds)
  have same: "map (\<lambda>i. newBook w (uuid_calls s + i) (random_calls s + 3 * i) ((bds @ [bd]) ! i))
                [0..<length bds]
            = map (\<lambda>i. newBook w (uuid_calls s + i) (random_calls s + 3 * i) (bds ! i))
                [0..<length bds]"
    by (rule map_cong) (simp_all add: nth_append)
  show ?case using snoc.IH
    by (simp add: run_snoc onItem_def Let_def same)
qed


lemma displayed_search_resolved:
  "displayedBooks (run w pb (Start k # map (Item k) bds @ [Resolved k]) s) =
     map (\<lambda>i. newBook w (uuid_calls s + i) (random_calls s + 3 * i) (bds ! i)) [0..<length bds]"
proof -
  have "run w pb (Start k # map (Item k) bds @ [Resolved k]) s
        = searchResolved k (run w pb (map (Item k) bds) (searchStart k s))"
    using run_snoc [of w pb "Start k # map (Item k) bds" "Resolved k" s] by (simp add: run_Cons)
  then show ?thesis
    using run_items [of w pb k bds "searchStart k s"]
    by (simp add: searchResolved_def displayed_items) (simp add: searchStart_def)
qed

text \<open>
  C3. With the stream as the spec describes it: when three payloads that have all six
  fields are followed by one that lacks a field and the stream then ends, the displayed
  list is the three books built from the three payloads, in arrival order. For any
  sequence of payloads the stream parts of the displayed books are the validated
  payloads in order, and a payload is dropped exactly when one of title, author, summary,
  category, publication date and page count is missing.
\<close>

theorem malformed_payload_dropped:
  assumes "validate p1 = Some d1" "validate p2 = Some d2" "validate p3 = Some d3"
    and "validate p4 = None"
  shows "displayedBooks (handleSearch w pb k [p1, p2, p3, p4] True s) =
           [newBook w (uuid_calls s) (random_calls s) d1,
            newBook w (uuid_calls s + 1) (random_calls s + 3) d2,
            newBook w (uuid_calls s + 2) (random_calls s + 6) d3]
       \<and> map dataOf (displayedBooks (handleSearch w pb k [p1, p2, p3, p4] True s)) = [d1, d2, d3]
       \<and> map dataOf (displayedBooks (handleSearch w pb k payloads True s))
            = List.map_filter validate payloads
       \<and> (validate p = None \<longleftrightarrow>
            raw_title p = None \<or> raw_author p = None \<or> raw_summary p = None \<or>
            raw_category p = None \<or> raw_publicationDate p = None \<or> raw_pages p = None)"
proof -
  have s3: "streamBookRecommendations [p1, p2, p3, p4] = [d1, d2, d3]"
    using assms by (simp add: streamBookRecommendations_def map_filter_simps)
  have a: "displayedBooks (handleSearch w pb k [p1, p2, p3, p4] True s) =
           [newBook w (uuid_calls s) (random_calls s) d1,
            newBook w (uuid_calls s + 1) (random_calls s + 3) d2,
            newBook w (uuid_calls s + 2) (random_calls s + 6) d3]"
    by (simp add: handleSearch_def s3 run_def searchStart_def onItem_def searchResolved_def
        Let_def add.commute)
  have b: "map dataOf (displayedBooks (handleSearch w pb k payloads True s))
            = List.map_filter validate payloads"
    by (simp add: handleSearch_def displayed_search_resolved streamBookRecommendations_def
        o_def map_nth)
  show ?thesis
    using a b validate_None_iff [of p] by simp
qed

theorem malformed_payload_dropped_witness:
  "validate (samplePayload ''A'') = Some (sampleData ''A'')
   \<and> validate (samplePayload ''B'') = Some (sampleData ''B'')
   \<and> validate (samplePayload ''C'') = Some (sampleData ''C'')
   \<and> validate ((samplePayload ''D'')\<lparr>raw_pages := None\<rparr>) = None
   \<and> map title (displayedBooks (handleSearch sampleEnv [] 1
        [samplePayload ''A'', samplePayload ''B'', samplePayload ''C'',
         (samplePayload ''D'')\<lparr>raw_pages := None\<rparr>] True (initialStore [])))
      = [''A'', ''B'', ''C'']"
  using malformed_payload_dropped [of "samplePayload ''A''" "sampleData ''A''"
      "samplePayload ''B''" "sampleData ''B''" "samplePayload ''C''" "sampleData ''C''"
      "(samplePayload ''D'')\<lparr>raw_pages := None\<rparr>" sampleEnv "[]" 1 "initialStore []"]
  by (simp add: validate_def samplePayload_def sampleData_def newBook_def Let_def)

section \<open>Checkout\<close>

lemma pushSales_eq:
  "pushSales w b n (ns, s) =
     (ns @ map (\<lambda>i. \<lparr>bookId = b, sale_timestamp = new_Date w (date_calls s + i)\<rparr>) [0..<n],
      s\<lparr>date_calls := date_calls s + n\<rparr>)"
proof (induction n arbitrary: ns s)
  case 0
  show ?case by simp
next
  case (Suc n)
  show ?case
    by (simp add: Suc.IH map_upt_Suc del: upt_Suc)
qed

lemma confirmItem_eq:
  "confirmItem w item (ns, s) =
     (ns @ map (\<lambda>i. \<lparr>bookId = book_id item, sale_timestamp = new_Date w (date_calls s + i)\<rparr>)
             [0..<nat (quantity item)],
      addNotification w (saleMessage item) (s\<lparr>date_calls := date_calls s + nat (quantity item)\<rparr>))"
  by (simp add: confirmItem_def pushSales_eq)

lemma confirmLoop_ids:
  "map bookId (fst (confirmLoop w items (ns, s))) =
     map bookId ns @ concat (map (\<lambda>item. replicate (nat (quantity item)) (book_id item)) items)"
proof (induction items arbitrary: ns s)
  case Nil
  show ?case by simp
next
  case (Cons item items)
  show ?case
    by (simp add: confirmItem_eq Cons.IH o_def map_replicate_const)
qed

lemma confirmLoop_store:
  "salesData (snd (confirmLoop w items (ns, s))) = salesData s
   \<and> uuid_calls (snd (confirmLoop w items (ns, s))) = uuid_calls s + length items
   \<and> date_calls (snd (confirmLoop w items (ns, s))) =
       date_calls s + length (concat (map (\<lambda>item. replicate (nat (quantity item)) (book_id item)) items))
        + length items"
proof (induction items arbitrary: ns s)
  case Nil
  show ?case by simp
next
  case (Cons item items)
  show ?case
    by (simp add: confirmItem_eq Cons.IH addNotification_def Let_def)
qed

lemma take_cap:
  "take 20 (ys @ x # take 19 xs) = take 20 (ys @ x # xs)"
  by (cases "20 - length ys") (auto simp: min_def)

lemma confirmLoop_log:
  "length (notifications s) \<le> 20 \<Longrightarrow>
   map message (notifications (snd (confirmLoop w items (ns, s)))) =
     take 20 (rev (map saleMessage items) @ map message (notifications s))"
proof (induction items arbitrary: ns s)
  case Nil
  then show ?case by simp
next
  case (Cons item items)
  let ?s1 = "addNotification w (saleMessage item) (s\<lparr>date_calls := date_calls s + nat (quantity item)\<rparr>)"
  define ns' where "ns' = ns @ map (\<lambda>i. \<lparr>bookId = book_id item,
      sale_timestamp = new_Date w (date_calls s + i)\<rparr>) [0..<nat (quantity item)]"
  have len: "length (notifications ?s1) \<le> 20"
    by (simp add: addNotification_def Let_def)
  have "map message (notifications ?s1) = saleMessage item # take 19 (map message (notifications s))"
    by (simp add: addNotification_def Let_def take_map)
  then show ?case
    using Cons.IH [OF len, of ns'] take_cap [of "rev (map saleMessage items)" "saleMessage item"
        "map message (notifications s)"]
    by (simp add: confirmItem_eq ns'_def)
qed

lemma confirmLoop_stamps:
  "r \<in> set (fst (confirmLoop w items (ns, s))) \<Longrightarrow>
   r \<in> set ns \<or> (\<exists>j. date_calls s \<le> j \<and> j < date_calls (snd (confirmLoop w items (ns, s)))
                     \<and> sale_timestamp r = new_Date w j)"
proof (induction items arbitrary: ns s)
  case Nil
  then show ?case by simp
next
  case (Cons item items)
  let ?ns1 = "ns @ map (\<lambda>i. \<lparr>bookId = book_id item, sale_timestamp = new_Date w (date_calls s + i)\<rparr>)
             [0..<nat (quantity item)]"
  let ?s1 = "addNotification w (saleMessage item) (s\<lparr>date_calls := date_calls s + nat (quantity item)\<rparr>)"
  have d1: "date_calls ?s1 = Suc (date_calls s + nat (quantity item))"
    by (simp add: addNotification_def Let_def)
  have mono: "date_calls ?s1 \<le> date_calls (snd (confirmLoop w items (?ns1, ?s1)))"
    using confirmLoop_store [of w items ?ns1 ?s1] by simp
  have eq: "confirmLoop w (item # items) (ns, s) = confirmLoop w items (?ns1, ?s1)"
    by (simp add: confirmItem_eq)
  from Cons.prems have "r \<in> set (fst (confirmLoop w items (?ns1, ?s1)))"
    by (simp add: confirmItem_eq)
  from Cons.IH [OF this]
  consider "r \<in> set ns"
    | i where "i < nat (quantity item)" "sale_timestamp r = new_Date w (date_calls s + i)"
    | j where "date_calls ?s1 \<le> j" "j < date_calls (snd (confirmLoop w items (?ns1, ?s1)))"
        "sale_timestamp r = new_Date w j"
    by auto
  then show ?case
  proof cases
    case 1
    then show ?thesis by simp
  next
    case 2
    with d1 mono have "date_calls s \<le> date_calls s + i
        \<and> date_calls s + i < date_calls (snd (confirmLoop w items (?ns1, ?s1)))"
      by linarith
    with 2 show ?thesis unfolding eq by blast
  next
    case 3
    with d1 have "date_calls s \<le> j" by linarith
    with 3 show ?thesis unfolding eq by blast
  qed
qed

lemma units_count:
  "distinct (map book_id items) \<Longrightarrow> item \<in> set items \<Longrightarrow>
   length (filter (\<lambda>b. b = book_id item)
     (concat (map (\<lambda>item. replicate (nat (quantity item)) (book_id item)) items)))
   = nat (quantity item)"
proof (induction items)
  case Nil
  then show ?case by simp
next
  case (Cons x items)
  have none: "filter (\<lambda>b. b = i)
     (concat (map (\<lambda>item. replicate (nat (quantity item)) (book_id item)) items)) = []"
    if "i \<notin> book_id ` set items" for i
    using that by (induction items) auto
  show ?case
  proof (cases "item = x")
    case True
    with Cons.prems none [of "book_id x"] show ?thesis by simp
  next
    case False
    with Cons.prems have "item \<in> set items" "book_id x \<noteq> book_id item"
      by (auto simp: image_iff)
    with Cons show ?thesis by simp
  qed
qed


lemma units_length:
  "\<forall>item\<in>set items. 0 \<le> quantity item \<Longrightarrow>
   int (length (concat (map (\<lambda>item. replicate (nat (quantity item)) (book_id item)) items)))
   = sum_list (map quantity items)"
  by (induction items) simp_all

lemma units_set:
  "set (concat (map (\<lambda>item. replicate (nat (quantity item)) (book_id item)) items))
   \<subseteq> book_id ` set items"
  by (induction items) auto

lemma handleConfirmCartPurchase_eq:
  "handleConfirmCartPurchase w s =
     (snd (confirmLoop w (cart s) ([], s)))
       \<lparr>salesData := salesData s @ fst (confirmLoop w (cart s) ([], s)),
        cart := [], currentView := Store\<rparr>"
  using confirmLoop_store [of w "cart s" "[]" s]
  by (auto simp: handleConfirmCartPurchase_def split: prod.splits)

text \<open>
  C4. For a cart with one line per book id, quantities that are not negative and a
  notification log within its cap, confirming the purchase keeps the old sales log as the
  initial part of the new one; the records appended after it are, for every line of the
  cart, as many records with the id of its book as its quantity says, so their number is
  the sum of the quantities, and they carry no other id; each of them is stamped with a
  clock reading taken during the call; the messages of the log are then one message
  \<open>New Sale: "title" (xN)\<close> per line, the last line first, in front of the old
  messages, cut to 20; \<open>addNotification\<close> has been called once per line; the cart is
  empty and the view is the store.
\<close>

theorem purchase_records_units:
  assumes "distinct (map book_id (cart s))"
    and "\<forall>item\<in>set (cart s). 0 \<le> quantity item"
    and "length (notifications s) \<le> 20"
  shows "take (length (salesData s)) (salesData (handleConfirmCartPurchase w s)) = salesData s
       \<and> (\<forall>item\<in>set (cart s).
            int (length (filter (\<lambda>r. bookId r = book_id item)
                   (drop (length (salesData s)) (salesData (handleConfirmCartPurchase w s)))))
              = quantity item)
       \<and> int (length (drop (length (salesData s)) (salesData (handleConfirmCartPurchase w s))))
            = sum_list (map quantity (cart s))
       \<and> bookId ` set (drop (length (salesData s)) (salesData (handleConfirmCartPurchase w s)))
            \<subseteq> book_id ` set (cart s)
       \<and> (\<forall>r\<in>set (drop (length (salesData s)) (salesData (handleConfirmCartPurchase w s))).
            \<exists>j. date_calls s \<le> j \<and> j < date_calls (handleConfirmCartPurchase w s)
                \<and> sale_timestamp r = new_Date w j)
       \<and> map message (notifications (handleConfirmCartPurchase w s)) =
            take 20 (rev (map (\<lambda>item. ''New Sale: '' @ dq # title item @ dq # '' (x''
                                         @ show_int (quantity item) @ '')'') (cart s))
                     @ map message (notifications s))
       \<and> uuid_calls (handleConfirmCartPurchase w s) = uuid_calls s + length (cart s)
       \<and> cart (handleConfirmCartPurchase w s) = []
       \<and> currentView (handleConfirmCartPurchase w s) = Store"
proof -
  let ?new = "fst (confirmLoop w (cart s) ([], s))"
  let ?s1 = "snd (confirmLoop w (cart s) ([], s))"
  let ?s' = "handleConfirmCartPurchase w s"
  note eq = handleConfirmCartPurchase_eq [of w s]
  have sd: "salesData ?s' = salesData s @ ?new"
    by (simp add: eq)
  have new: "drop (length (salesData s)) (salesData ?s') = ?new"
    by (simp add: sd)
  have ids: "map bookId ?new =
      concat (map (\<lambda>item. replicate (nat (quantity item)) (book_id item)) (cart s))"
    using confirmLoop_ids [of w "cart s" "[]" s] by simp
  have c1: "take (length (salesData s)) (salesData ?s') = salesData s"
    by (simp add: sd)
  have c2: "int (length (filter (\<lambda>r. bookId r = book_id item) ?new)) = quantity item"
    if "item \<in> set (cart s)" for item
  proof -
    have "length (filter (\<lambda>r. bookId r = book_id item) ?new)
          = length (filter (\<lambda>b. b = book_id item) (map bookId ?new))"
      by (simp add: filter_map o_def)
    also have "\<dots> = nat (quantity item)"
      unfolding ids using assms(1) that by (rule units_count)
    finally show ?thesis using assms(2) that by simp
  qed
  have c3: "int (length ?new) = sum_list (map quantity (cart s))"
    using units_length [OF assms(2)] ids by (metis length_map)
  have c4: "bookId ` set ?new \<subseteq> book_id ` set (cart s)"
    using units_set [of "cart s"] ids by (metis set_map)
  have c5: "\<exists>j. date_calls s \<le> j \<and> j < date_calls ?s' \<and> sale_timestamp r = new_Date w j"
    if "r \<in> set ?new" for r
    using confirmLoop_stamps [of r w "cart s" "[]" s] that by (simp add: eq)
  have c6: "map message (notifications ?s') =
            take 20 (rev (map (\<lambda>item. ''New Sale: '' @ dq # title item @ dq # '' (x''
                                         @ show_int (quantity item) @ '')'') (cart s))
                     @ map message (notifications s))"
    using confirmLoop_log [OF assms(3), of w "cart s" "[]"]
    by (simp add: eq saleMessage_def [abs_def])
  have c7: "uuid_calls ?s' = uuid_calls s + length (cart s)"
    using confirmLoop_store [of w "cart s" "[]" s] by (simp add: eq)
  have c8: "cart ?s' = [] \<and> currentView ?s' = Store"
    by (simp add: eq)
  show ?thesis
    unfolding new using c1 c2 c3 c4 c5 c6 c7 c8 by blast
qed

theorem purchase_records_units_witness:
  "distinct (map book_id (cart sampleCart))
   \<and> list_all (\<lambda>item. 0 \<le> quantity item) (cart sampleCart)
   \<and> length (notifications sampleCart) \<le> 20
   \<and> salesData (handleConfirmCartPurchase sampleEnv sampleCart) =
       [\<lparr>bookId = ''A'', sale_timestamp = 1000\<rparr>, \<lparr>bookId = ''A'', sale_timestamp = 1001\<rparr>,
        \<lparr>bookId = ''B'', sale_timestamp = 1003\<rparr>]
   \<and> map message (notifications (handleConfirmCartPurchase sampleEnv sampleCart)) =
       [''New Sale: '' @ dq # ''Botany'' @ dq # '' (x1)'',
        ''New Sale: '' @ dq # ''Algebra'' @ dq # '' (x2)'']"
  using purchase_records_units [of sampleCart sampleEnv]
  by (simp add: sampleCart_def initialStore_def toCartItem_def sampleBook_def sampleEnv_def
      handleConfirmCartPurchase_def confirmItem_def addNotification_def saleMessage_def
      show_int_def show_nat.simps [of "Suc 0"] show_nat.simps [of "Suc (Suc 0)"] Let_def numeral_2_eq_2)

end
